theory Spec2Isabelle
  imports Complex_Main "HOL-Library.Word" "HOL-Library.Log_Nat"
begin

section \<open>The heatmap effect of zmk-rgb-fx (src/fx/heatmap.c)\<close>

text \<open>
  A shallow embedding of \<^verbatim>\<open>src/fx/heatmap.c\<close>. The C integer types are words of
  their width (\<^verbatim>\<open>uint8_t\<close>, \<^verbatim>\<open>uint16_t\<close>/\<^verbatim>\<open>int16_t\<close>, \<^verbatim>\<open>uint32_t\<close>); \<^verbatim>\<open>size_t\<close>
  indices are natural numbers, since the code only compares them and counts up to
  \<^verbatim>\<open>pixel_map_size\<close>. Arrays are lists; an access outside an array is written out
  where a property depends on it.
\<close>

subsection \<open>Data\<close>

type_synonym uint8_t = "8 word"
type_synonym uint16_t = "16 word"
type_synonym int16_t = "16 word"
type_synonym uint32_t = "32 word"
type_synonym size_t = nat

text \<open>\<^verbatim>\<open>struct fx_heatmap_config\<close>.\<close>

record fx_heatmap_config =
  pixel_map :: "size_t list"
  pixel_map_size :: size_t
  blending_mode :: uint8_t
  color_cold_hue :: uint16_t
  color_hot_hue :: uint16_t
  saturation :: uint8_t
  lightness :: uint8_t

text \<open>\<^verbatim>\<open>struct fx_heatmap_data\<close>.\<close>

record fx_heatmap_data =
  key_counts :: "uint32_t list"
  is_active :: bool

text \<open>
  A device instance with the part of its environment that the effect acts on: the
  driver data, and the calls made so far to the frame scheduler
  (\<^verbatim>\<open>zmk_rgb_fx_request_frames\<close>), each recorded with its argument.
\<close>

record device =
  data :: fx_heatmap_data
  frames_requested :: "nat list"

text \<open>
  The macro \<^verbatim>\<open>FX_HEATMAP_DEVICE\<close> declares \<^verbatim>\<open>key_counts\<close> with as many entries as
  \<^verbatim>\<open>pixel_map\<close> and sets \<^verbatim>\<open>pixel_map_size\<close> to that number.
\<close>

definition device_wf :: "fx_heatmap_config \<Rightarrow> device \<Rightarrow> bool" where
  "device_wf config dev \<longleftrightarrow>
     pixel_map_size config = length (pixel_map config) \<and>
     length (key_counts (data dev)) = pixel_map_size config"

text \<open>
  The events of the bus. Only \<^verbatim>\<open>position\<close> and \<^verbatim>\<open>state\<close> of a position event are read
  here; every other kind of event is \<open>Other_event\<close>, for which
  \<^verbatim>\<open>as_zmk_position_state_changed\<close> returns \<^verbatim>\<open>NULL\<close>.
\<close>

record zmk_position_state_changed =
  position :: uint32_t
  state :: bool

datatype zmk_event =
  Position_state_changed zmk_position_state_changed
| Other_event nat

fun as_zmk_position_state_changed :: "zmk_event \<Rightarrow> zmk_position_state_changed option" where
  "as_zmk_position_state_changed (Position_state_changed ev) = Some ev"
| "as_zmk_position_state_changed (Other_event k) = None"

text \<open>The status codes returned through \<^verbatim>\<open>int\<close>: \<open>Inr ()\<close> is 0, \<open>Inl e\<close> is \<^verbatim>\<open>-e\<close>.\<close>

datatype errno = ENOTSUP | EINVAL

subsection \<open>The frame scheduler\<close>

text \<open>
  Modelled from the spec: \<^verbatim>\<open>zmk_rgb_fx_request_frames\<close> is declared in \<^verbatim>\<open>zmk/rgb_fx.h\<close>, which is
  not among the sources. The spec calls it a signal to the external scheduler that frames
  should be rendered; the signal is recorded with the number of frames asked for.
\<close>

definition zmk_rgb_fx_request_frames :: "nat \<Rightarrow> device \<Rightarrow> device" where
  "zmk_rgb_fx_request_frames n dev = dev\<lparr>frames_requested := frames_requested dev @ [n]\<rparr>"

subsection \<open>Tracking key presses\<close>

text \<open>
  \<^verbatim>\<open>fx_heatmap_on_key_press\<close>. The resolver \<^verbatim>\<open>zmk_rgb_fx_get_pixel_by_key_position\<close> is a
  collaborator outside the sources and is a parameter. The increment is the one of
  \<^verbatim>\<open>uint32_t\<close>: it wraps around.
\<close>

definition fx_heatmap_on_key_press ::
  "(uint32_t \<Rightarrow> size_t) \<Rightarrow> fx_heatmap_config \<Rightarrow> zmk_event \<Rightarrow> device \<Rightarrow> (errno + unit) \<times> device" where
  "fx_heatmap_on_key_press zmk_rgb_fx_get_pixel_by_key_position config event dev =
     (if \<not> is_active (data dev) then (Inr (), dev)
      else case as_zmk_position_state_changed event of
        None \<Rightarrow> (Inl ENOTSUP, dev)
      | Some pos_event \<Rightarrow>
          if \<not> state pos_event then (Inr (), dev)
          else
            let pixel_idx = zmk_rgb_fx_get_pixel_by_key_position (position pos_event) in
            if pixel_idx \<ge> pixel_map_size config then (Inl EINVAL, dev)
            else
              (Inr (),
               zmk_rgb_fx_request_frames 1
                 (dev\<lparr>data := (data dev)\<lparr>key_counts :=
                    (key_counts (data dev))[pixel_idx := key_counts (data dev) ! pixel_idx + 1]\<rparr>\<rparr>)))"

subsection \<open>Starting and stopping\<close>

definition fx_heatmap_start :: "device \<Rightarrow> device" where
  "fx_heatmap_start dev = zmk_rgb_fx_request_frames 1 (dev\<lparr>data := (data dev)\<lparr>is_active := True\<rparr>\<rparr>)"

definition fx_heatmap_stop :: "device \<Rightarrow> device" where
  "fx_heatmap_stop dev = dev\<lparr>data := (data dev)\<lparr>is_active := False\<rparr>\<rparr>"

text \<open>\<^verbatim>\<open>fx_heatmap_init\<close> zeroes the first \<^verbatim>\<open>pixel_map_size\<close> counters and returns 0.\<close>

definition fx_heatmap_init :: "fx_heatmap_config \<Rightarrow> device \<Rightarrow> (errno + unit) \<times> device" where
  "fx_heatmap_init config dev =
     (Inr (),
      dev\<lparr>data := (data dev)\<lparr>key_counts :=
        fold (\<lambda>i counts. counts[i := 0]) [0..<pixel_map_size config] (key_counts (data dev))\<rparr>\<rparr>)"

subsection \<open>Single-precision arithmetic\<close>

text \<open>
  \<^verbatim>\<open>float\<close> is IEEE 754 binary32 with the default rounding (to nearest, ties to even). A
  finite float is modelled as the real number it denotes, and an operation as the exact
  operation followed by rounding to 24 significant bits. The exponent range is not
  modelled: the nonzero magnitudes that \<^verbatim>\<open>fx_heatmap_render_frame\<close> computes lie between
  \<open>2 powi - 33\<close> and \<open>2 powi 32\<close>, far from overflow and from the subnormal numbers.
\<close>

definition round_half_even :: "real \<Rightarrow> int" where
  "round_half_even x =
     (let f = \<lfloor>x\<rfloor>; r = x - of_int f in
      if r < 1 / 2 then f
      else if 1 / 2 < r then f + 1
      else if even f then f else f + 1)"

text \<open>The binary exponent of a positive real: \<open>2 powi e \<le> x < 2 powi (e + 1)\<close>.\<close>

definition f32_exponent :: "real \<Rightarrow> int" where
  "f32_exponent x =
     (if 1 \<le> x then int (floorlog 2 (nat \<lfloor>x\<rfloor>)) - 1
      else - int (floorlog 2 (nat (\<lceil>1 / x\<rceil> - 1))))"

definition f32_round_pos :: "real \<Rightarrow> real" where
  "f32_round_pos x =
     (let ulp = 2 powi (f32_exponent x - 23) in of_int (round_half_even (x / ulp)) * ulp)"

definition f32_round :: "real \<Rightarrow> real" where
  "f32_round x =
     (if x = 0 then 0 else if 0 < x then f32_round_pos x else - f32_round_pos (- x))"

text \<open>The conversions \<^verbatim>\<open>(float)\<close> of a \<^verbatim>\<open>uint32_t\<close> and of an \<^verbatim>\<open>int16_t\<close>.\<close>

definition f32_of_uint32 :: "uint32_t \<Rightarrow> real" where
  "f32_of_uint32 w = f32_round (of_nat (unat w))"

definition f32_of_int16 :: "int16_t \<Rightarrow> real" where
  "f32_of_int16 w = f32_round (of_int (sint w))"

text \<open>
  Division and multiplication. The only divisor in the code is \<^verbatim>\<open>(float)max_count\<close>, which
  is at least 1, so the quotient by zero (0 in HOL, infinite or not a number in C) does not
  arise.
\<close>

definition f32_div :: "real \<Rightarrow> real \<Rightarrow> real" where
  "f32_div x y = f32_round (x / y)"

definition f32_mul :: "real \<Rightarrow> real \<Rightarrow> real" where
  "f32_mul x y = f32_round (x * y)"

text \<open>The conversion \<^verbatim>\<open>(int16_t)\<close> of a float discards the fractional part.\<close>

definition f32_truncate :: "real \<Rightarrow> int" where
  "f32_truncate x = (if 0 \<le> x then \<lfloor>x\<rfloor> else \<lceil>x\<rceil>)"

definition int16_of_f32 :: "real \<Rightarrow> int16_t" where
  "int16_of_f32 x = word_of_int (f32_truncate x)"

subsection \<open>Rendering a frame\<close>

text \<open>
  \<^verbatim>\<open>struct zmk_color_hsl\<close>, as \<^verbatim>\<open>fx_heatmap_render_frame\<close> initialises it. The colour type
  \<^verbatim>\<open>struct zmk_color_rgb\<close> is a type parameter \<open>'c\<close>, and of \<^verbatim>\<open>struct rgb_fx_pixel\<close> only
  the field \<^verbatim>\<open>value\<close> is accessed (\<open>pixel_value\<close> here, \<open>value\<close> being an Isabelle keyword).
\<close>

record zmk_color_hsl =
  h :: uint16_t
  s :: uint8_t
  l :: uint8_t

record 'c rgb_fx_pixel =
  pixel_value :: 'c

text \<open>The first loop: the largest of the first \<^verbatim>\<open>pixel_map_size\<close> counters, and at least 1.\<close>

definition max_count :: "fx_heatmap_config \<Rightarrow> fx_heatmap_data \<Rightarrow> uint32_t" where
  "max_count config d =
     fold (\<lambda>i m. if key_counts d ! i > m then key_counts d ! i else m)
       [0..<pixel_map_size config] 1"

text \<open>\<^verbatim>\<open>float usage = (float)data->key_counts[i] / (float)max_count\<close>.\<close>

definition usage :: "uint32_t \<Rightarrow> uint32_t \<Rightarrow> real" where
  "usage count m = f32_div (f32_of_uint32 count) (f32_of_uint32 m)"

text \<open>
  \<^verbatim>\<open>int16_t hue_delta\<close> after the adjustment. The difference of the two \<^verbatim>\<open>uint16_t\<close> hues is
  computed in \<^verbatim>\<open>int\<close> and stored in 16 bits; the comparisons are signed.
\<close>

definition hue_delta :: "fx_heatmap_config \<Rightarrow> int16_t" where
  "hue_delta config =
     (let d = color_hot_hue config - color_cold_hue config in
      if 180 <s d then d - 360
      else if d <s - 180 then d + 360
      else d)"

text \<open>\<^verbatim>\<open>while (hue >= 360) hue -= 360;\<close> on a \<^verbatim>\<open>uint16_t\<close>.\<close>

function hue_sub_loop :: "uint16_t \<Rightarrow> uint16_t" where
  "hue_sub_loop x = (if 360 \<le> x then hue_sub_loop (x - 360) else x)"
  by pat_completeness auto
termination
  by (relation "measure unat") (simp_all add: word_le_nat_alt unat_sub_if')

text \<open>\<^verbatim>\<open>while (hue < 0) hue += 360;\<close> on a \<^verbatim>\<open>uint16_t\<close>: the comparison is unsigned.\<close>

function hue_add_loop :: "uint16_t \<Rightarrow> uint16_t" where
  "hue_add_loop x = (if x < 0 then hue_add_loop (x + 360) else x)"
  by pat_completeness auto
termination
  by (relation "{}") simp_all

text \<open>
  \<^verbatim>\<open>uint16_t hue = config->color_cold_hue + (int16_t)(hue_delta * usage)\<close>, followed by the
  two loops. The sum is computed in \<^verbatim>\<open>int\<close> and stored in 16 bits.
\<close>

definition hue :: "fx_heatmap_config \<Rightarrow> real \<Rightarrow> uint16_t" where
  "hue config u =
     hue_add_loop (hue_sub_loop
       (color_cold_hue config + int16_of_f32 (f32_mul (f32_of_int16 (hue_delta config)) u)))"

text \<open>
  Writing outside the frame buffer is undefined in C; the model stops there and reports
  the index.
\<close>

datatype fault = Out_of_bounds size_t

text \<open>
  The colour of slot \<open>i\<close>: \<^verbatim>\<open>color_hsl\<close> is built from the hue and the configured
  saturation and lightness, and \<^verbatim>\<open>zmk_hsl_to_rgb\<close> converts it to \<^verbatim>\<open>color_rgb\<close>. The
  conversion is a collaborator outside the sources and is a parameter.
\<close>

definition color_rgb ::
  "(zmk_color_hsl \<Rightarrow> 'c) \<Rightarrow> fx_heatmap_config \<Rightarrow> fx_heatmap_data \<Rightarrow> uint32_t \<Rightarrow> size_t \<Rightarrow> 'c" where
  "color_rgb zmk_hsl_to_rgb config d m i =
     (let color_hsl = \<lparr>h = hue config (usage (key_counts d ! i) m),
                       s = saturation config, l = lightness config\<rparr>
      in zmk_hsl_to_rgb color_hsl)"

text \<open>
  The body of the second loop for slot \<open>i\<close>: the colour is blended into
  \<^verbatim>\<open>pixels[pixel_map[i]].value\<close>, with no comparison of \<^verbatim>\<open>pixel_map[i]\<close> against
  \<^verbatim>\<open>num_pixels\<close>. The blending \<^verbatim>\<open>zmk_apply_blending_mode\<close> is a collaborator outside the
  sources and is a parameter.
\<close>

definition render_pixel ::
  "(zmk_color_hsl \<Rightarrow> 'c) \<Rightarrow> ('c \<Rightarrow> 'c \<Rightarrow> uint8_t \<Rightarrow> 'c) \<Rightarrow> fx_heatmap_config \<Rightarrow> fx_heatmap_data \<Rightarrow>
     uint32_t \<Rightarrow> size_t \<Rightarrow> 'c rgb_fx_pixel list \<Rightarrow> fault + 'c rgb_fx_pixel list" where
  "render_pixel zmk_hsl_to_rgb zmk_apply_blending_mode config d m i pixels =
     (let p = pixel_map config ! i in
      if p < length pixels
      then Inr (pixels[p := (pixels ! p)\<lparr>pixel_value :=
              zmk_apply_blending_mode (pixel_value (pixels ! p))
                (color_rgb zmk_hsl_to_rgb config d m i) (blending_mode config)\<rparr>])
      else Inl (Out_of_bounds p))"

text \<open>
  \<^verbatim>\<open>fx_heatmap_render_frame\<close>. The argument \<^verbatim>\<open>num_pixels\<close> is not used by the code; the
  extent of the buffer is the length of \<open>pixels\<close>.
\<close>

definition fx_heatmap_render_frame ::
  "(zmk_color_hsl \<Rightarrow> 'c) \<Rightarrow> ('c \<Rightarrow> 'c \<Rightarrow> uint8_t \<Rightarrow> 'c) \<Rightarrow> fx_heatmap_config \<Rightarrow> device \<Rightarrow>
     'c rgb_fx_pixel list \<Rightarrow> size_t \<Rightarrow> fault + 'c rgb_fx_pixel list" where
  "fx_heatmap_render_frame zmk_hsl_to_rgb zmk_apply_blending_mode config dev pixels num_pixels =
     (let m = max_count config (data dev) in
      fold (\<lambda>i r. case r of
                Inl e \<Rightarrow> Inl e
              | Inr px \<Rightarrow> render_pixel zmk_hsl_to_rgb zmk_apply_blending_mode config (data dev) m i px)
        [0..<pixel_map_size config] (Inr pixels))"

subsection \<open>Inputs used in the examples\<close>

abbreviation demo_config :: fx_heatmap_config where
  "demo_config \<equiv> \<lparr>pixel_map = [0, 1], pixel_map_size = 2, blending_mode = 0,
     color_cold_hue = 240, color_hot_hue = 0, saturation = 100, lightness = 50\<rparr>"

abbreviation demo_device :: "uint32_t list \<Rightarrow> bool \<Rightarrow> device" where
  "demo_device counts active \<equiv>
     \<lparr>data = \<lparr>key_counts = counts, is_active = active\<rparr>, frames_requested = []\<rparr>"

abbreviation key_event :: "uint32_t \<Rightarrow> bool \<Rightarrow> zmk_event" where
  "key_event p pressed \<equiv> Position_state_changed \<lparr>position = p, state = pressed\<rparr>"

abbreviation hue_config :: "uint16_t \<Rightarrow> uint16_t \<Rightarrow> fx_heatmap_config" where
  "hue_config cold hot \<equiv> \<lparr>pixel_map = [0, 1], pixel_map_size = 2, blending_mode = 0,
     color_cold_hue = cold, color_hot_hue = hot, saturation = 100, lightness = 50\<rparr>"

text \<open>
  Modelled from the spec: \<^verbatim>\<open>zmk_hsl_to_rgb\<close> and \<^verbatim>\<open>zmk_apply_blending_mode\<close> belong to the colour
  module of the host, which is not among the sources. The spec names overwrite and additive
  among the blend rules. The instances below serve in the examples only: a colour is a triple
  of channel values, \<open>blend_overwrite\<close> replaces the existing value by the computed colour,
  \<open>blend_additive\<close> adds channel by channel, and the conversion \<open>demo_hsl_to_rgb\<close> keeps
  hue, saturation and lightness as the three channels, so that a change of hue shows in the
  result. The theorems hold for every conversion and every blend rule.
\<close>

type_synonym demo_rgb = "nat \<times> nat \<times> nat"

definition demo_hsl_to_rgb :: "zmk_color_hsl \<Rightarrow> demo_rgb" where
  "demo_hsl_to_rgb color_hsl = (unat (h color_hsl), unat (s color_hsl), unat (l color_hsl))"

definition blend_overwrite :: "demo_rgb \<Rightarrow> demo_rgb \<Rightarrow> uint8_t \<Rightarrow> demo_rgb" where
  "blend_overwrite base_value blend_value mode = blend_value"

definition blend_additive :: "demo_rgb \<Rightarrow> demo_rgb \<Rightarrow> uint8_t \<Rightarrow> demo_rgb" where
  "blend_additive base_value blend_value mode =
     (case (base_value, blend_value) of
        ((r1, g1, b1), (r2, g2, b2)) \<Rightarrow> (r1 + r2, g1 + g2, b1 + b2))"

abbreviation black :: "demo_rgb rgb_fx_pixel" where
  "black \<equiv> \<lparr>pixel_value = (0, 0, 0)\<rparr>"

abbreviation map_config :: "size_t list \<Rightarrow> size_t \<Rightarrow> fx_heatmap_config" where
  "map_config pm n \<equiv> \<lparr>pixel_map = pm, pixel_map_size = n, blending_mode = 0,
     color_cold_hue = 0, color_hot_hue = 120, saturation = 100, lightness = 50\<rparr>"

section \<open>Properties of the key-press handler\<close>

text \<open>
  C3. While the effect is active, a press whose resolved pixel index is not below
  \<^verbatim>\<open>pixel_map_size\<close> returns \<^verbatim>\<open>-EINVAL\<close> and leaves the device as it was: no counter
  changes, and no frame is requested.
\<close>

theorem on_key_press_invalid_index:
  assumes "is_active (data dev)"
    and "as_zmk_position_state_changed event = Some pos_event"
    and "state pos_event"
    and "resolve (position pos_event) \<ge> pixel_map_size config"
  shows "fx_heatmap_on_key_press resolve config event dev = (Inl EINVAL, dev)"
  using assms by (simp add: fx_heatmap_on_key_press_def)

theorem on_key_press_invalid_index_witness:
  "fx_heatmap_on_key_press unat demo_config (key_event 2 True) (demo_device [4, 7] True)
     = (Inl EINVAL, demo_device [4, 7] True)"
  using on_key_press_invalid_index
    [of "demo_device [4, 7] True" "key_event 2 True" "\<lparr>position = 2, state = True\<rparr>"
        demo_config unat]
  by simp

text \<open>
  C4, as the claim states it, fails: an event that is not a key-position event, delivered
  while the effect is inactive, returns 0 and not \<^verbatim>\<open>-ENOTSUP\<close>.
\<close>

theorem on_key_press_unsupported_inactive_counterexample:
  "fx_heatmap_on_key_press unat demo_config (Other_event 0) (demo_device [4, 7] False)
     = (Inr (), demo_device [4, 7] False)
   \<and> fst (fx_heatmap_on_key_press unat demo_config (Other_event 0) (demo_device [4, 7] False))
     \<noteq> Inl ENOTSUP"
  by (simp add: fx_heatmap_on_key_press_def)

text \<open>
  C4, amended. An event that is not a key-position event returns \<^verbatim>\<open>-ENOTSUP\<close> while the
  effect is active and 0 while it is inactive; in both states the device (counters and
  active flag included) is left as it was.
\<close>

theorem on_key_press_unsupported:
  assumes "as_zmk_position_state_changed event = None"
  shows "(is_active (data dev) \<longrightarrow>
            fst (fx_heatmap_on_key_press resolve config event dev) = Inl ENOTSUP)
       \<and> (\<not> is_active (data dev) \<longrightarrow>
            fst (fx_heatmap_on_key_press resolve config event dev) = Inr ())
       \<and> snd (fx_heatmap_on_key_press resolve config event dev) = dev"
  using assms by (simp add: fx_heatmap_on_key_press_def)

theorem on_key_press_unsupported_witness:
  "fx_heatmap_on_key_press unat demo_config (Other_event 3) (demo_device [4, 7] True)
     = (Inl ENOTSUP, demo_device [4, 7] True)
   \<and> fx_heatmap_on_key_press unat demo_config (Other_event 3) (demo_device [4, 7] False)
     = (Inr (), demo_device [4, 7] False)"
  using on_key_press_unsupported [of "Other_event 3" "demo_device [4, 7] True" unat demo_config]
    on_key_press_unsupported [of "Other_event 3" "demo_device [4, 7] False" unat demo_config]
  by (simp add: prod_eq_iff)

text \<open>
  C10. While the effect is inactive every event, of whatever kind, returns 0 and leaves
  the device as it was, because \<^verbatim>\<open>is_active\<close> is tested before the kind of the event;
  \<^verbatim>\<open>-ENOTSUP\<close> is returned only while the effect is active (and only for an event that is
  not a key-position event).
\<close>

theorem on_key_press_inactive:
  "(\<not> is_active (data dev) \<longrightarrow>
      fx_heatmap_on_key_press resolve config event dev = (Inr (), dev))
   \<and> (fst (fx_heatmap_on_key_press resolve config event dev) = Inl ENOTSUP \<longrightarrow>
      is_active (data dev) \<and> as_zmk_position_state_changed event = None)"
  by (simp add: fx_heatmap_on_key_press_def Let_def split: option.splits)

theorem on_key_press_inactive_witness:
  "fx_heatmap_on_key_press unat demo_config (Other_event 5) (demo_device [4, 7] False)
     = (Inr (), demo_device [4, 7] False)
   \<and> fst (fx_heatmap_on_key_press unat demo_config (Other_event 5) (demo_device [4, 7] True))
     = Inl ENOTSUP
   \<and> is_active (data (demo_device [4, 7] True))"
proof -
  have "fst (fx_heatmap_on_key_press unat demo_config (Other_event 5) (demo_device [4, 7] True))
     = Inl ENOTSUP"
    by (simp add: fx_heatmap_on_key_press_def)
  then show ?thesis
    using on_key_press_inactive [of "demo_device [4, 7] False" unat demo_config "Other_event 5"]
      on_key_press_inactive [of "demo_device [4, 7] True" unat demo_config "Other_event 5"]
    by simp
qed

text \<open>
  C5, as the claim states it, fails: the counter is a \<^verbatim>\<open>uint32_t\<close>, and a press on a slot
  whose counter holds \<open>2\<^sup>3\<^sup>2 - 1\<close> sets it to 0 instead of increasing it by 1.
\<close>

theorem on_key_press_wraps_counterexample:
  "fx_heatmap_on_key_press unat demo_config (key_event 1 True) (demo_device [4, 4294967295] True)
     = (Inr (), \<lparr>data = \<lparr>key_counts = [4, 0], is_active = True\<rparr>, frames_requested = [1]\<rparr>)
   \<and> unat (key_counts (data (snd (fx_heatmap_on_key_press unat demo_config (key_event 1 True)
        (demo_device [4, 4294967295] True)))) ! 1)
     \<noteq> unat (key_counts (data (demo_device [4, 4294967295] True)) ! 1) + 1"
  by (simp add: fx_heatmap_on_key_press_def zmk_rgb_fx_request_frames_def)

text \<open>
  C5, amended. The counters change under \<^verbatim>\<open>fx_heatmap_on_key_press\<close> only when the effect is
  active and the event is a press with an in-range resolved index. Then the call returns 0
  and exactly the counter at the resolved index is incremented modulo \<open>2\<^sup>3\<^sup>2\<close>: it
  increases by exactly 1 unless it held \<open>2\<^sup>3\<^sup>2 - 1\<close>. Every release, and every event
  delivered while the effect is inactive, returns 0 and leaves the device as it was.
\<close>

theorem on_key_press_counts:
  assumes "device_wf config dev"
  shows "(key_counts (data (snd (fx_heatmap_on_key_press resolve config event dev)))
            \<noteq> key_counts (data dev) \<longrightarrow>
          is_active (data dev) \<and>
          (\<exists>pos_event. event = Position_state_changed pos_event \<and> state pos_event \<and>
             resolve (position pos_event) < pixel_map_size config))
       \<and> (is_active (data dev) \<and> event = Position_state_changed pos_event \<and> state pos_event \<and>
            resolve (position pos_event) < pixel_map_size config \<longrightarrow>
          fst (fx_heatmap_on_key_press resolve config event dev) = Inr () \<and>
          key_counts (data (snd (fx_heatmap_on_key_press resolve config event dev)))
            = (key_counts (data dev))[resolve (position pos_event) :=
                 key_counts (data dev) ! resolve (position pos_event) + 1] \<and>
          unat (key_counts (data (snd (fx_heatmap_on_key_press resolve config event dev)))
                  ! resolve (position pos_event))
            = (unat (key_counts (data dev) ! resolve (position pos_event)) + 1) mod 2 ^ 32 \<and>
          (key_counts (data dev) ! resolve (position pos_event) \<noteq> - 1 \<longrightarrow>
             unat (key_counts (data (snd (fx_heatmap_on_key_press resolve config event dev)))
                  ! resolve (position pos_event))
             = unat (key_counts (data dev) ! resolve (position pos_event)) + 1))
       \<and> (event = Position_state_changed pos_event \<and> \<not> state pos_event \<longrightarrow>
          fx_heatmap_on_key_press resolve config event dev = (Inr (), dev))
       \<and> (\<not> is_active (data dev) \<longrightarrow>
          fx_heatmap_on_key_press resolve config event dev = (Inr (), dev))"
proof -
  have wrap: "unat (w + 1) = (unat w + 1) mod 2 ^ 32" for w :: uint32_t
    by (simp add: unat_word_ariths)
  have nowrap: "unat (w + 1) = unat w + 1" if "w \<noteq> - 1" for w :: uint32_t
  proof -
    from that have "1 + w \<noteq> 0"
      by (simp add: eq_neg_iff_add_eq_0 add.commute)
    then show ?thesis
      by (simp add: unatSuc add.commute)
  qed
  have nowrap_mod: "Suc (unat w) mod 4294967296 = Suc (unat w)" if "w \<noteq> - 1" for w :: uint32_t
    using wrap [of w] nowrap [OF that] by simp
  show ?thesis
    using assms
    by (cases event)
      (auto simp add: fx_heatmap_on_key_press_def Let_def device_wf_def
        zmk_rgb_fx_request_frames_def wrap nowrap_mod)
qed

theorem on_key_press_counts_witness:
  "device_wf demo_config (demo_device [4, 7] True)
   \<and> fx_heatmap_on_key_press unat demo_config (key_event 1 True) (demo_device [4, 7] True)
     = (Inr (), \<lparr>data = \<lparr>key_counts = [4, 8], is_active = True\<rparr>, frames_requested = [1]\<rparr>)
   \<and> fx_heatmap_on_key_press unat demo_config (key_event 1 False) (demo_device [4, 7] True)
     = (Inr (), demo_device [4, 7] True)
   \<and> fx_heatmap_on_key_press unat demo_config (key_event 1 True) (demo_device [4, 7] False)
     = (Inr (), demo_device [4, 7] False)"
proof -
  have wf: "device_wf demo_config (demo_device [4, 7] b)" for b
    by (simp add: device_wf_def)
  have frames: "frames_requested
      (snd (fx_heatmap_on_key_press unat demo_config (key_event 1 True) (demo_device [4, 7] True)))
      = [1]"
    and active: "is_active (data
      (snd (fx_heatmap_on_key_press unat demo_config (key_event 1 True) (demo_device [4, 7] True))))"
    by (simp_all add: fx_heatmap_on_key_press_def zmk_rgb_fx_request_frames_def)
  show ?thesis
    using wf [of True]
      on_key_press_counts [OF wf [of True], of unat "key_event 1 True"
        "\<lparr>position = 1, state = True\<rparr>"]
      on_key_press_counts [OF wf [of True], of unat "key_event 1 False"
        "\<lparr>position = 1, state = False\<rparr>"]
      on_key_press_counts [OF wf [of False], of unat "key_event 1 True"
        "\<lparr>position = 1, state = True\<rparr>"]
      frames active
    by (simp add: prod_eq_iff device.equality fx_heatmap_data.equality)
qed

section \<open>Starting and stopping the effect\<close>

text \<open>
  C7. \<^verbatim>\<open>fx_heatmap_start\<close> sets \<^verbatim>\<open>is_active\<close> and asks the scheduler once, for one frame;
  \<^verbatim>\<open>fx_heatmap_stop\<close> clears \<^verbatim>\<open>is_active\<close> and asks for nothing; neither changes a counter.
\<close>

theorem start_stop:
  "is_active (data (fx_heatmap_start dev))
   \<and> frames_requested (fx_heatmap_start dev) = frames_requested dev @ [1]
   \<and> key_counts (data (fx_heatmap_start dev)) = key_counts (data dev)
   \<and> \<not> is_active (data (fx_heatmap_stop dev))
   \<and> frames_requested (fx_heatmap_stop dev) = frames_requested dev
   \<and> key_counts (data (fx_heatmap_stop dev)) = key_counts (data dev)"
  by (simp add: fx_heatmap_start_def fx_heatmap_stop_def zmk_rgb_fx_request_frames_def)

section \<open>Rounding to single precision\<close>

lemma round_half_even_of_int: "round_half_even (of_int n) = n"
  by (simp add: round_half_even_def)

lemma round_half_even_floor: "\<lfloor>x\<rfloor> \<le> round_half_even x \<and> round_half_even x \<le> \<lfloor>x\<rfloor> + 1"
  by (simp add: round_half_even_def Let_def)

lemma round_half_even_mono:
  assumes "x \<le> y"
  shows "round_half_even x \<le> round_half_even y"
proof (cases "\<lfloor>x\<rfloor> = \<lfloor>y\<rfloor>")
  case True
  with assms show ?thesis
    by (auto simp add: round_half_even_def Let_def)
next
  case False
  with assms have "\<lfloor>x\<rfloor> + 1 \<le> \<lfloor>y\<rfloor>"
    using floor_mono [of x y] by linarith
  then show ?thesis
    using round_half_even_floor [of x] round_half_even_floor [of y] by linarith
qed

lemma powi_pred: "0 < k \<Longrightarrow> (2::real) powi (int k - 1) = 2 ^ (k - 1)"
  by (metis Suc_pred' of_nat_Suc add_diff_cancel_right' power_int_of_nat add.commute)

lemma f32_exponent_ge1:
  assumes "1 \<le> x"
  shows "2 powi f32_exponent x \<le> x" and "x < 2 powi (f32_exponent x + 1)"
proof -
  define n where "n = nat \<lfloor>x\<rfloor>"
  have n: "0 < n" "real n \<le> x" "x < real n + 1"
    using assms by (simp_all add: n_def)
  have pos: "0 < floorlog 2 n"
    using n by (simp add: floorlog_def)
  have e: "f32_exponent x = int (floorlog 2 n) - 1"
    using assms by (simp add: f32_exponent_def n_def)
  from floorlog_bounds [of n 2] n
  have lo: "2 ^ (floorlog 2 n - 1) \<le> n" and hi: "n < 2 ^ floorlog 2 n"
    by simp_all
  from lo have lo': "(2::real) ^ (floorlog 2 n - 1) \<le> real n"
    by (metis of_nat_le_iff of_nat_numeral of_nat_power)
  have "(2::real) powi f32_exponent x = 2 ^ (floorlog 2 n - 1)"
    by (simp only: e powi_pred [OF pos])
  with lo' n show "2 powi f32_exponent x \<le> x"
    by linarith
  from hi have "n + 1 \<le> 2 ^ floorlog 2 n" by simp
  then have hi': "real n + 1 \<le> 2 ^ floorlog 2 n"
    by (metis of_nat_le_iff of_nat_numeral of_nat_power of_nat_Suc Suc_eq_plus1 of_nat_add of_nat_1)
  have "(2::real) powi (f32_exponent x + 1) = 2 ^ floorlog 2 n"
    by (simp add: e)
  with hi' n show "x < 2 powi (f32_exponent x + 1)"
    by linarith
qed

lemma f32_exponent_lt1:
  assumes "0 < x" "x < 1"
  shows "2 powi f32_exponent x \<le> x" and "x < 2 powi (f32_exponent x + 1)"
proof -
  define y where "y = 1 / x"
  define n where "n = nat (\<lceil>y\<rceil> - 1)"
  have y: "1 < y" using assms by (simp add: y_def)
  then have c: "2 \<le> \<lceil>y\<rceil>" by linarith
  have n: "0 < n" "real n < y" "y \<le> real n + 1"
    using c by (simp_all add: n_def) linarith+
  have pos: "0 < floorlog 2 n"
    using n by (simp add: floorlog_def)
  have e: "f32_exponent x = - int (floorlog 2 n)"
    using assms by (simp add: f32_exponent_def n_def y_def)
  from floorlog_bounds [of n 2] n
  have lo: "2 ^ (floorlog 2 n - 1) \<le> n" and hi: "n < 2 ^ floorlog 2 n"
    by simp_all
  from lo have lo': "(2::real) ^ (floorlog 2 n - 1) \<le> real n"
    by (metis of_nat_le_iff of_nat_numeral of_nat_power)
  from hi have "n + 1 \<le> 2 ^ floorlog 2 n" by simp
  then have hi': "real n + 1 \<le> 2 ^ floorlog 2 n"
    by (metis of_nat_le_iff of_nat_numeral of_nat_power of_nat_Suc Suc_eq_plus1 of_nat_add of_nat_1)
  have "y \<le> 2 ^ floorlog 2 n" using hi' n by linarith
  then have "1 / 2 ^ floorlog 2 n \<le> x"
    using assms by (simp add: y_def field_simps)
  then show "2 powi f32_exponent x \<le> x"
    by (simp add: e power_int_minus field_simps)
  have "2 ^ (floorlog 2 n - 1) < y" using lo' n by linarith
  then have "x < 1 / 2 ^ (floorlog 2 n - 1)"
    using assms by (simp add: y_def field_simps)
  moreover have "(2::real) powi (- int (floorlog 2 n) + 1) = 1 / 2 ^ (floorlog 2 n - 1)"
    using powi_pred [OF pos] power_int_minus [of "2::real" "int (floorlog 2 n) - 1"]
    by (simp add: field_simps)
  ultimately show "x < 2 powi (f32_exponent x + 1)"
    by (simp add: e)
qed

lemma f32_exponent_bounds:
  assumes "0 < x"
  shows "2 powi f32_exponent x \<le> x" and "x < 2 powi (f32_exponent x + 1)"
  using assms f32_exponent_ge1 [of x] f32_exponent_lt1 [of x]
  by (cases "1 \<le> x"; simp)+


lemma f32_exponent_unique:
  assumes "0 < x" "2 powi e \<le> x" "x < 2 powi (e + 1)"
  shows "f32_exponent x = e"
proof (rule antisym)
  show "f32_exponent x \<le> e"
  proof (rule ccontr)
    assume "\<not> f32_exponent x \<le> e"
    then have "e + 1 \<le> f32_exponent x" by simp
    then have "(2::real) powi (e + 1) \<le> 2 powi f32_exponent x"
      by (intro power_int_increasing) simp_all
    with f32_exponent_bounds(1) [OF assms(1)] assms(3) show False by linarith
  qed
  show "e \<le> f32_exponent x"
  proof (rule ccontr)
    assume "\<not> e \<le> f32_exponent x"
    then have "f32_exponent x + 1 \<le> e" by simp
    then have "(2::real) powi (f32_exponent x + 1) \<le> 2 powi e"
      by (intro power_int_increasing) simp_all
    with f32_exponent_bounds(2) [OF assms(1)] assms(2) show False by linarith
  qed
qed

lemma f32_exponent_mono:
  assumes "0 < x" "x \<le> y"
  shows "f32_exponent x \<le> f32_exponent y"
proof (rule ccontr)
  assume "\<not> f32_exponent x \<le> f32_exponent y"
  then have "f32_exponent y + 1 \<le> f32_exponent x" by simp
  then have "(2::real) powi (f32_exponent y + 1) \<le> 2 powi f32_exponent x"
    by (intro power_int_increasing) simp_all
  moreover have "0 < y" using assms by simp
  ultimately show False
    using f32_exponent_bounds(1) [OF assms(1)] f32_exponent_bounds(2) [of y] assms(2)
    by linarith
qed

lemma powi_split: "(2::real) powi e = 2 ^ 23 * 2 powi (e - 23)"
  and powi_split_Suc: "(2::real) powi (e + 1) = 2 ^ 24 * 2 powi (e - 23)"
proof -
  have "(2::real) powi (23 + (e - 23)) = 2 powi 23 * 2 powi (e - 23)"
    by (rule power_int_add) simp
  then show "(2::real) powi e = 2 ^ 23 * 2 powi (e - 23)" by simp
  have "(2::real) powi (24 + (e - 23)) = 2 powi 24 * 2 powi (e - 23)"
    by (rule power_int_add) simp
  then show "(2::real) powi (e + 1) = 2 ^ 24 * 2 powi (e - 23)" by (simp add: add.commute)
qed

lemma f32_round_pos_bounds:
  assumes "0 < x"
  shows "2 powi f32_exponent x \<le> f32_round_pos x"
    and "f32_round_pos x \<le> 2 powi (f32_exponent x + 1)"
proof -
  define e where "e = f32_exponent x"
  define u :: real where "u = 2 powi (e - 23)"
  have u: "0 < u" by (simp add: u_def)
  have r: "f32_round_pos x = of_int (round_half_even (x / u)) * u"
    by (simp add: f32_round_pos_def Let_def u_def e_def)
  from f32_exponent_bounds [OF assms]
  have "2 ^ 23 * u \<le> x" "x < 2 ^ 24 * u"
    unfolding u_def e_def powi_split [symmetric] powi_split_Suc [symmetric] by simp_all
  with u have q: "of_int (2 ^ 23) \<le> x / u" "x / u \<le> of_int (2 ^ 24)"
    by (simp_all add: field_simps)
  from round_half_even_mono [OF q(1)] round_half_even_mono [OF q(2)]
  have "2 ^ 23 \<le> round_half_even (x / u)" "round_half_even (x / u) \<le> 2 ^ 24"
    by (simp_all only: round_half_even_of_int)
  then have "2 ^ 23 \<le> (of_int (round_half_even (x / u)) :: real)"
    "(of_int (round_half_even (x / u)) :: real) \<le> 2 ^ 24"
    by simp_all
  with u have "2 ^ 23 * u \<le> f32_round_pos x" "f32_round_pos x \<le> 2 ^ 24 * u"
    by (simp_all add: r)
  then show "2 powi f32_exponent x \<le> f32_round_pos x"
    and "f32_round_pos x \<le> 2 powi (f32_exponent x + 1)"
    unfolding u_def e_def powi_split [symmetric] powi_split_Suc [symmetric] by simp_all
qed

lemma f32_round_pos_mono:
  assumes "0 < x" "x \<le> y"
  shows "f32_round_pos x \<le> f32_round_pos y"
proof (cases "f32_exponent x = f32_exponent y")
  case True
  define u :: real where "u = 2 powi (f32_exponent y - 23)"
  have u: "0 < u" by (simp add: u_def)
  with assms have "x / u \<le> y / u" by (simp add: divide_right_mono)
  from round_half_even_mono [OF this] u
  have "of_int (round_half_even (x / u)) * u \<le> of_int (round_half_even (y / u)) * u"
    by simp
  then show ?thesis
    by (simp add: f32_round_pos_def Let_def True u_def)
next
  case False
  with f32_exponent_mono [OF assms] have "f32_exponent x + 1 \<le> f32_exponent y" by simp
  then have "(2::real) powi (f32_exponent x + 1) \<le> 2 powi f32_exponent y"
    by (intro power_int_increasing) simp_all
  moreover have "0 < y" using assms by simp
  ultimately show ?thesis
    using f32_round_pos_bounds(2) [OF assms(1)] f32_round_pos_bounds(1) [of y] by linarith
qed

lemma f32_round_pos_gt0: "0 < x \<Longrightarrow> 0 < f32_round_pos x"
  using f32_round_pos_bounds(1) [of x] zero_less_power_int [of "2::real" "f32_exponent x"]
  by linarith

lemma f32_round_mono:
  assumes "x \<le> y"
  shows "f32_round x \<le> f32_round y"
proof -
  consider "0 < x" | "x = 0" | "x < 0" "y < 0" | "x < 0" "0 \<le> y" by linarith
  then show ?thesis
  proof cases
    case 1
    with assms f32_round_pos_mono [of x y] show ?thesis by (simp add: f32_round_def)
  next
    case 2
    with assms f32_round_pos_gt0 [of y] show ?thesis by (simp add: f32_round_def less_imp_le)
  next
    case 3
    with assms f32_round_pos_mono [of "- y" "- x"] show ?thesis by (simp add: f32_round_def)
  next
    case 4
    with f32_round_pos_gt0 [of "- x"] f32_round_pos_gt0 [of y] show ?thesis
      by (cases "y = 0") (simp_all add: f32_round_def less_imp_le)
  qed
qed

lemma f32_round_0: "f32_round 0 = 0"
  by (simp add: f32_round_def)

lemma f32_round_pos_exact:
  assumes "0 < n" "n < 2 ^ 24"
  shows "f32_round_pos (of_int n) = of_int n"
proof -
  define e where "e = f32_exponent (of_int n)"
  have pos: "0 < (of_int n :: real)" using assms by simp
  have "e \<le> 23"
  proof (rule ccontr)
    assume "\<not> e \<le> 23"
    then have "24 \<le> e" by simp
    then have "(2::real) powi 24 \<le> 2 powi e"
      by (intro power_int_increasing) simp_all
    with f32_exponent_bounds(1) [OF pos] have "2 ^ 24 \<le> (of_int n :: real)"
      by (simp add: e_def)
    then have "2 ^ 24 \<le> n" by simp
    with assms show False by simp
  qed
  define k where "k = nat (23 - e)"
  have "(2::real) powi (e - 23) = 2 powi (- int k)"
    using \<open>e \<le> 23\<close> by (simp add: k_def)
  then have u: "(2::real) powi (e - 23) = 1 / 2 ^ k"
    by (simp add: power_int_minus field_simps)
  have "of_int n / (2::real) powi (e - 23) = of_int (n * 2 ^ k)"
    by (simp add: u)
  then have "round_half_even (of_int n / (2::real) powi (e - 23)) = n * 2 ^ k"
    by (simp only: round_half_even_of_int)
  then show ?thesis
    by (simp add: f32_round_pos_def Let_def e_def [symmetric] u)
qed

lemma f32_round_exact:
  assumes "\<bar>n\<bar> < 2 ^ 24"
  shows "f32_round (of_int n) = of_int n"
proof -
  consider "n = 0" | "0 < n" | "n < 0" by linarith
  then show ?thesis
  proof cases
    case 1
    then show ?thesis by (simp add: f32_round_def)
  next
    case 2
    with assms f32_round_pos_exact [of n] show ?thesis by (simp add: f32_round_def)
  next
    case 3
    with assms f32_round_pos_exact [of "- n"] show ?thesis by (simp add: f32_round_def)
  qed
qed

section \<open>The hue of a slot\<close>

lemma hue_sub_loop_less: "hue_sub_loop x < 360"
proof (induction x rule: hue_sub_loop.induct)
  case (1 x)
  show ?case
    by (subst hue_sub_loop.simps) (use 1 in \<open>auto simp add: not_le\<close>)
qed

lemma hue_sub_loop_mod: "unat (hue_sub_loop x) = unat x mod 360"
proof (induction x rule: hue_sub_loop.induct)
  case (1 x)
  show ?case
  proof (cases "360 \<le> x")
    case True
    then have le: "360 \<le> unat x" by (simp add: word_le_nat_alt)
    from True have "unat (x - 360) = unat x - 360"
      by (simp add: unat_sub)
    with 1 True le show ?thesis
      by (subst hue_sub_loop.simps) (simp add: le_mod_geq)
  next
    case False
    then have "unat x < 360" by (simp add: word_le_nat_alt)
    with False show ?thesis
      by (subst hue_sub_loop.simps) simp
  qed
qed

lemma hue_add_loop_id: "hue_add_loop x = x"
  by (subst hue_add_loop.simps) simp

lemma small_signed: "- 1000 \<le> k \<Longrightarrow> k \<le> 1000 \<Longrightarrow> signed_take_bit 15 k = (k::int)"
  by (rule signed_take_bit_int_eq_self) simp_all

lemma sint_hue_delta:
  assumes "color_cold_hue config < 360" "color_hot_hue config < 360"
  shows "sint (hue_delta config) =
     (let d = uint (color_hot_hue config) - uint (color_cold_hue config) in
      if 180 < d then d - 360 else if d < - 180 then d + 360 else d)"
proof -
  define a where "a = uint (color_hot_hue config)"
  define b where "b = uint (color_cold_hue config)"
  have a: "0 \<le> a" "a < 360" using assms(2) by (simp_all add: a_def word_less_def)
  have b: "0 \<le> b" "b < 360" using assms(1) by (simp_all add: b_def word_less_def)
  have ta: "signed_take_bit 15 a = a" and tb: "signed_take_bit 15 b = b"
    and td: "signed_take_bit 15 (a - b) = a - b"
    using a b by (auto intro!: small_signed)
  have sa: "sint (color_hot_hue config) = a"
    using ta by (simp add: a_def sint_uint)
  have sb: "sint (color_cold_hue config) = b"
    using tb by (simp add: b_def sint_uint)
  define w where "w = color_hot_hue config - color_cold_hue config"
  have d: "sint w = a - b"
    using td by (simp add: w_def sint_word_ariths sa sb)
  have dm: "sint (w - 360) = a - b - 360" if "180 < a - b"
  proof -
    have "signed_take_bit 15 (a - b - 360) = a - b - 360"
      using a b that by (auto intro!: small_signed)
    then show ?thesis
      by (simp add: sint_word_ariths [where 'a = 16] d)
  qed
  have dp: "sint (w + 360) = a - b + 360" if "a - b < - 180"
  proof -
    have "signed_take_bit 15 (a - b + 360) = a - b + 360"
      using a b that by (auto intro!: small_signed)
    then show ?thesis
      by (simp add: sint_word_ariths [where 'a = 16] d)
  qed
  show ?thesis
    using dm dp
    by (simp add: hue_delta_def Let_def word_sless_alt w_def [symmetric] d
        a_def [symmetric] b_def [symmetric])
qed

lemma max_count_fold:
  fixes cs :: "uint32_t list"
  assumes "n \<le> length cs"
  shows "fold (\<lambda>i m. if cs ! i > m then cs ! i else m) [0..<n] 1
           = Max (insert 1 (set (take n cs)))"
  using assms
proof (induction n)
  case 0
  show ?case by simp
next
  case (Suc n)
  then have n: "n < length cs" by simp
  define M where "M = Max (insert 1 (set (take n cs)))"
  have fin: "finite (insert 1 (set (take n cs)))" "insert 1 (set (take n cs)) \<noteq> {}"
    by simp_all
  have "insert 1 (set (take (Suc n) cs)) = insert (cs ! n) (insert 1 (set (take n cs)))"
    using n by (simp add: take_Suc_conv_app_nth insert_commute)
  then have "Max (insert 1 (set (take (Suc n) cs)))
      = Max (insert (cs ! n) (insert 1 (set (take n cs))))"
    by (rule arg_cong)
  also have "\<dots> = max (cs ! n) M"
    unfolding M_def using fin by (rule Max_insert)
  finally have step: "Max (insert 1 (set (take (Suc n) cs))) = max (cs ! n) M" .
  have ih: "fold (\<lambda>i m. if cs ! i > m then cs ! i else m) [0..<n] 1 = M"
    unfolding M_def using Suc n by simp
  have "fold (\<lambda>i m. if cs ! i > m then cs ! i else m) [0..<Suc n] 1
      = (if cs ! n > M then cs ! n else M)"
    by (simp add: ih)
  also have "\<dots> = max (cs ! n) M"
    by (auto simp add: max_def)
  finally show ?case
    by (simp only: step)
qed

lemma max_count_eq:
  assumes "device_wf config dev"
  shows "max_count config (data dev) = Max (insert 1 (set (key_counts (data dev))))"
  using assms max_count_fold [of "pixel_map_size config" "key_counts (data dev)"]
  by (simp add: max_count_def device_wf_def)

lemma max_count_ge:
  assumes "device_wf config dev"
  shows "1 \<le> max_count config (data dev)"
    and "i < pixel_map_size config \<Longrightarrow> key_counts (data dev) ! i \<le> max_count config (data dev)"
proof -
  show "1 \<le> max_count config (data dev)"
    by (simp add: max_count_eq [OF assms])
  assume "i < pixel_map_size config"
  with assms have "key_counts (data dev) ! i \<in> set (key_counts (data dev))"
    by (simp add: device_wf_def)
  then show "key_counts (data dev) ! i \<le> max_count config (data dev)"
    by (simp add: max_count_eq [OF assms])
qed

lemma f32_round_1: "f32_round 1 = 1"
  using f32_round_exact [of 1] by simp

lemma f32_of_uint32_mono: "a \<le> b \<Longrightarrow> f32_of_uint32 a \<le> f32_of_uint32 b"
  unfolding f32_of_uint32_def word_le_nat_alt
  by (rule f32_round_mono) (rule of_nat_mono)

lemma f32_of_uint32_nonneg: "0 \<le> f32_of_uint32 a"
proof -
  have "f32_round 0 \<le> f32_round (of_nat (unat a))"
    by (rule f32_round_mono) (rule of_nat_0_le_iff)
  then show ?thesis
    unfolding f32_of_uint32_def f32_round_0 .
qed

lemma f32_of_uint32_ge1: "1 \<le> m \<Longrightarrow> 1 \<le> f32_of_uint32 m"
  using f32_of_uint32_mono [of 1 m] by (simp add: f32_of_uint32_def f32_round_1)

lemma usage_bounds:
  assumes "c \<le> m" "1 \<le> m"
  shows "0 \<le> usage c m" and "usage c m \<le> 1"
proof -
  have m: "1 \<le> f32_of_uint32 m" using assms(2) by (rule f32_of_uint32_ge1)
  have c: "0 \<le> f32_of_uint32 c" "f32_of_uint32 c \<le> f32_of_uint32 m"
    using assms(1) by (simp_all add: f32_of_uint32_nonneg f32_of_uint32_mono)
  from m c have q: "0 \<le> f32_of_uint32 c / f32_of_uint32 m" "f32_of_uint32 c / f32_of_uint32 m \<le> 1"
    by simp_all
  from f32_round_mono [OF q(1)] show "0 \<le> usage c m"
    by (simp add: usage_def f32_div_def f32_round_0)
  from f32_round_mono [OF q(2)] show "usage c m \<le> 1"
    by (simp add: usage_def f32_div_def f32_round_1)
qed

lemma f32_of_int16_exact: "f32_of_int16 d = of_int (sint d)"
proof -
  have "- (2 ^ 15) \<le> sint d" "sint d < 2 ^ 15"
    using sint_ge [of d] sint_lt [of d] by simp_all
  then have "\<bar>sint d\<bar> < 2 ^ 24" by simp
  then show ?thesis
    unfolding f32_of_int16_def by (rule f32_round_exact)
qed

lemma f32_truncate_between:
  assumes "of_int a \<le> x" "x \<le> of_int b"
  shows "a \<le> f32_truncate x" and "f32_truncate x \<le> b"
proof -
  have lo: "a \<le> \<lfloor>x\<rfloor>" and hi: "\<lceil>x\<rceil> \<le> b"
    using assms by (simp_all add: le_floor_iff ceiling_le_iff)
  have lo': "a \<le> \<lceil>x\<rceil>"
    using lo floor_le_ceiling [of x] by (rule order_trans)
  have hi': "\<lfloor>x\<rfloor> \<le> b"
    using floor_le_ceiling [of x] hi by (rule order_trans)
  show "a \<le> f32_truncate x" and "f32_truncate x \<le> b"
    using lo lo' hi hi' by (simp_all add: f32_truncate_def)
qed

lemma f32_mul_delta_between:
  assumes "0 \<le> u" "u \<le> 1"
  shows "0 \<le> sint d \<Longrightarrow>
           0 \<le> f32_mul (f32_of_int16 d) u \<and> f32_mul (f32_of_int16 d) u \<le> of_int (sint d)"
    and "sint d \<le> 0 \<Longrightarrow>
           of_int (sint d) \<le> f32_mul (f32_of_int16 d) u \<and> f32_mul (f32_of_int16 d) u \<le> 0"
proof -
  define D :: real where "D = of_int (sint d)"
  have ex: "f32_round D = D"
    using f32_of_int16_exact [of d] unfolding D_def f32_of_int16_def .
  have r: "f32_mul (f32_of_int16 d) u = f32_round (D * u)"
    unfolding f32_mul_def f32_of_int16_exact D_def ..
  {
    assume "0 \<le> sint d"
    then have "0 \<le> D" unfolding D_def by (simp only: of_int_0_le_iff)
    with assms have "0 \<le> D * u" "D * u \<le> D"
      by (simp_all add: mult_left_le)
    from f32_round_mono [OF this(1)] f32_round_mono [OF this(2)]
    have "0 \<le> f32_round (D * u) \<and> f32_round (D * u) \<le> D"
      by (simp only: f32_round_0 ex)
    then show "0 \<le> f32_mul (f32_of_int16 d) u \<and> f32_mul (f32_of_int16 d) u \<le> of_int (sint d)"
      unfolding r D_def .
  }
  {
    assume "sint d \<le> 0"
    then have D: "D \<le> 0" unfolding D_def by (simp only: of_int_le_0_iff)
    with assms have "D * u \<le> 0"
      by (simp add: mult_nonpos_nonneg)
    moreover have "D \<le> D * u"
      using mult_left_mono_neg [OF assms(2) D] by (simp add: mult.commute)
    ultimately have "D * u \<le> 0" "D \<le> D * u" .
    from f32_round_mono [OF this(1)] f32_round_mono [OF this(2)]
    have "D \<le> f32_round (D * u) \<and> f32_round (D * u) \<le> 0"
      by (simp only: f32_round_0 ex)
    then show "of_int (sint d) \<le> f32_mul (f32_of_int16 d) u \<and> f32_mul (f32_of_int16 d) u \<le> 0"
      unfolding r D_def .
  }
qed

lemma truncate_product_bounds:
  assumes "0 \<le> u" "u \<le> 1"
  shows "0 \<le> sint d \<Longrightarrow> 0 \<le> f32_truncate (f32_mul (f32_of_int16 d) u) \<and>
           f32_truncate (f32_mul (f32_of_int16 d) u) \<le> sint d"
    and "sint d \<le> 0 \<Longrightarrow> sint d \<le> f32_truncate (f32_mul (f32_of_int16 d) u) \<and>
           f32_truncate (f32_mul (f32_of_int16 d) u) \<le> 0"
proof -
  {
    assume "0 \<le> sint d"
    from f32_mul_delta_between(1) [OF assms this]
    have "of_int 0 \<le> f32_mul (f32_of_int16 d) u" "f32_mul (f32_of_int16 d) u \<le> of_int (sint d)"
      by simp_all
    from f32_truncate_between [OF this]
    show "0 \<le> f32_truncate (f32_mul (f32_of_int16 d) u) \<and>
           f32_truncate (f32_mul (f32_of_int16 d) u) \<le> sint d" ..
  }
  {
    assume "sint d \<le> 0"
    from f32_mul_delta_between(2) [OF assms this]
    have "of_int (sint d) \<le> f32_mul (f32_of_int16 d) u" "f32_mul (f32_of_int16 d) u \<le> of_int 0"
      by simp_all
    from f32_truncate_between [OF this]
    show "sint d \<le> f32_truncate (f32_mul (f32_of_int16 d) u) \<and>
           f32_truncate (f32_mul (f32_of_int16 d) u) \<le> 0" ..
  }
qed

lemma shorter_arc_arith:
  fixes a b :: int
  assumes "0 \<le> a" "a < 360" "0 \<le> b" "b < 360"
  defines "d \<equiv> (if 180 < a - b then a - b - 360 else if a - b < - 180 then a - b + 360 else a - b)"
  shows "- 180 \<le> d" and "d \<le> 180" and "(b + d) mod 360 = a"
proof -
  show "- 180 \<le> d" and "d \<le> 180"
    using assms(1-4) by (simp_all add: d_def)
  consider "180 < a - b" | "a - b < - 180" | "\<not> 180 < a - b" "\<not> a - b < - 180"
    by linarith
  then show "(b + d) mod 360 = a"
  proof cases
    case 1
    then have "b + d = a - 360" by (simp add: d_def)
    with assms(1-2) show ?thesis by simp
  next
    case 2
    then have "b + d = a + 360" by (simp add: d_def)
    with assms(1-2) show ?thesis by simp
  next
    case 3
    then have "b + d = a" by (simp add: d_def)
    with assms(1-2) show ?thesis by simp
  qed
qed

text \<open>
  C2. The hue delta is \<^verbatim>\<open>hot - cold\<close>, less 360 when it exceeds 180 and plus 360 when it is
  below -180. For hues in \<open>[0, 360)\<close> the result lies in \<open>[-180, 180]\<close> and leads from
  the cold hue to the hot hue modulo 360, so the interpolation follows the shorter arc; for
  cold 350 and hot 10 it is +20, for cold 10 and hot 350 it is -20.
\<close>

theorem hue_delta_shorter_arc:
  assumes "color_cold_hue config < 360" and "color_hot_hue config < 360"
  shows "sint (hue_delta config) =
           (let d = uint (color_hot_hue config) - uint (color_cold_hue config) in
            if 180 < d then d - 360 else if d < - 180 then d + 360 else d)
       \<and> - 180 \<le> sint (hue_delta config) \<and> sint (hue_delta config) \<le> 180
       \<and> (uint (color_cold_hue config) + sint (hue_delta config)) mod 360
           = uint (color_hot_hue config)"
proof -
  have a: "0 \<le> uint (color_hot_hue config)" "uint (color_hot_hue config) < 360"
    using assms(2) by (simp_all add: word_less_def)
  have b: "0 \<le> uint (color_cold_hue config)" "uint (color_cold_hue config) < 360"
    using assms(1) by (simp_all add: word_less_def)
  from shorter_arc_arith [OF a b] show ?thesis
    unfolding sint_hue_delta [OF assms] Let_def by (intro conjI refl)
qed

theorem hue_delta_shorter_arc_witness:
  "sint (hue_delta (hue_config 350 10)) = 20 \<and> sint (hue_delta (hue_config 10 350)) = - 20"
  using hue_delta_shorter_arc [of "hue_config 350 10"] hue_delta_shorter_arc [of "hue_config 10 350"]
  by simp

text \<open>
  C6. For every state of the counters, \<^verbatim>\<open>max_count\<close> after the first loop is the maximum of 1
  and of all counters. It is at least 1, so the divisor \<^verbatim>\<open>(float)max_count\<close> is at least 1
  and never 0; it is at least every counter, and every usage ratio lies in \<open>[0, 1]\<close>.
\<close>

theorem max_count_floor:
  assumes "device_wf config dev"
  shows "max_count config (data dev) = Max (insert 1 (set (key_counts (data dev))))
       \<and> (key_counts (data dev) \<noteq> [] \<longrightarrow>
            max_count config (data dev) = max 1 (Max (set (key_counts (data dev)))))
       \<and> 1 \<le> max_count config (data dev)
       \<and> 1 \<le> f32_of_uint32 (max_count config (data dev))
       \<and> (\<forall>i<pixel_map_size config.
            key_counts (data dev) ! i \<le> max_count config (data dev) \<and>
            0 \<le> usage (key_counts (data dev) ! i) (max_count config (data dev)) \<and>
            usage (key_counts (data dev) ! i) (max_count config (data dev)) \<le> 1)"
proof (intro conjI allI impI)
  show eq: "max_count config (data dev) = Max (insert 1 (set (key_counts (data dev))))"
    using assms by (rule max_count_eq)
  show "max_count config (data dev) = max 1 (Max (set (key_counts (data dev))))"
    if "key_counts (data dev) \<noteq> []"
    using that unfolding eq by (simp add: Max_insert)
  show one: "1 \<le> max_count config (data dev)"
    using assms by (rule max_count_ge(1))
  then show "1 \<le> f32_of_uint32 (max_count config (data dev))"
    by (rule f32_of_uint32_ge1)
  fix i
  assume "i < pixel_map_size config"
  with assms show le: "key_counts (data dev) ! i \<le> max_count config (data dev)"
    by (rule max_count_ge(2))
  from usage_bounds [OF le one]
  show "0 \<le> usage (key_counts (data dev) ! i) (max_count config (data dev))"
    and "usage (key_counts (data dev) ! i) (max_count config (data dev)) \<le> 1"
    by simp_all
qed

theorem max_count_floor_witness:
  "device_wf demo_config (demo_device [0, 10] True)
   \<and> max_count demo_config (data (demo_device [0, 10] True)) = 10
   \<and> 1 \<le> f32_of_uint32 10
   \<and> 0 \<le> usage 10 10 \<and> usage 10 10 \<le> 1
   \<and> 0 \<le> usage 0 10 \<and> usage 0 10 \<le> 1"
proof -
  have wf: "device_wf demo_config (demo_device [0, 10] True)"
    by (simp add: device_wf_def)
  note t = max_count_floor [OF wf]
  have m: "max_count demo_config (data (demo_device [0, 10] True)) = 10"
    using t by simp
  have u0: "0 \<le> usage 0 10 \<and> usage 0 10 \<le> 1"
    using t [THEN conjunct2, THEN conjunct2, THEN conjunct2, THEN conjunct2, rule_format, of 0]
    unfolding m by simp
  have u1: "0 \<le> usage 10 10 \<and> usage 10 10 \<le> 1"
    using t [THEN conjunct2, THEN conjunct2, THEN conjunct2, THEN conjunct2, rule_format, of 1]
    unfolding m by simp
  have f: "1 \<le> f32_of_uint32 10"
    using t unfolding m by simp
  show ?thesis
    using wf m u0 u1 f by simp
qed

lemma hue_less_360: "hue config u < 360"
  by (simp only: hue_def hue_add_loop_id hue_sub_loop_less)

lemma uint_hue_sub_loop: "uint (hue_sub_loop x) = uint x mod 360"
proof -
  have "uint (hue_sub_loop x) = int (unat (hue_sub_loop x))"
    by (rule uint_nat)
  also have "\<dots> = int (unat x mod 360)"
    by (simp only: hue_sub_loop_mod)
  also have "\<dots> = int (unat x) mod 360"
    by (simp only: zmod_int of_nat_numeral)
  finally show ?thesis
    by (simp only: uint_nat)
qed

lemma abs_hue_delta:
  assumes "color_cold_hue config < 360" and "color_hot_hue config < 360"
  shows "\<bar>sint (hue_delta config)\<bar> \<le> 180"
proof -
  have a: "0 \<le> uint (color_hot_hue config)" "uint (color_hot_hue config) < 360"
    using assms(2) by (simp_all add: word_less_def)
  have b: "0 \<le> uint (color_cold_hue config)" "uint (color_cold_hue config) < 360"
    using assms(1) by (simp_all add: word_less_def)
  from shorter_arc_arith(1,2) [OF a b] show ?thesis
    unfolding sint_hue_delta [OF assms] Let_def by linarith
qed

lemma uint_plus_int16: "uint (c + word_of_int t :: uint16_t) = (uint c + t) mod 65536"
  by (simp add: uint_word_ariths uint_word_of_int mod_add_right_eq)

lemma uint_hue:
  "uint (hue config u) =
     ((uint (color_cold_hue config) +
        f32_truncate (f32_mul (f32_of_int16 (hue_delta config)) u)) mod 65536) mod 360"
  by (simp only: hue_def hue_add_loop_id uint_hue_sub_loop int16_of_f32_def uint_plus_int16)

lemma truncate_product_abs:
  assumes "0 \<le> u" "u \<le> 1"
  shows "\<bar>f32_truncate (f32_mul (f32_of_int16 d) u)\<bar> \<le> \<bar>sint d\<bar>"
  using truncate_product_bounds [OF assms, of d] by (cases "0 \<le> sint d") auto

text \<open>
  C1, amended. For every slot \<open>i\<close> of a frame, with \<open>u\<close> the single-precision quotient of
  the slot's counter by \<^verbatim>\<open>max_count\<close> and \<open>t\<close> the single-precision product of the hue delta
  and \<open>u\<close> with its fractional part discarded (the conversion to \<^verbatim>\<open>int16_t\<close> rounds toward
  zero, it does not round to nearest): \<open>u\<close> lies in \<open>[0, 1]\<close>; the hue used for the slot
  lies in \<open>[0, 360)\<close>; and for configured hues in \<open>[0, 360)\<close> it equals
  \<open>(cold_hue + t) mod 360\<close> whenever the sum \<open>cold_hue + t\<close> is not negative.
\<close>

theorem render_hue:
  assumes "device_wf config dev" and "i < pixel_map_size config"
  shows "let u = usage (key_counts (data dev) ! i) (max_count config (data dev));
             t = f32_truncate (f32_mul (f32_of_int16 (hue_delta config)) u);
             sum = uint (color_cold_hue config) + t
         in 0 \<le> u \<and> u \<le> 1
          \<and> hue config u < 360
          \<and> (color_cold_hue config < 360 \<and> color_hot_hue config < 360 \<and> 0 \<le> sum \<longrightarrow>
               uint (hue config u) = sum mod 360)"
proof -
  define u where "u = usage (key_counts (data dev) ! i) (max_count config (data dev))"
  define t where "t = f32_truncate (f32_mul (f32_of_int16 (hue_delta config)) u)"
  define sum where "sum = uint (color_cold_hue config) + t"
  have u: "0 \<le> u" "u \<le> 1"
    unfolding u_def
    using usage_bounds [OF max_count_ge(2) [OF assms] max_count_ge(1) [OF assms(1)]]
    by simp_all
  have less: "hue config u < 360"
    by (rule hue_less_360)
  have val: "uint (hue config u) = (sum mod 65536) mod 360"
    unfolding sum_def t_def by (rule uint_hue)
  have nonneg: "uint (hue config u) = sum mod 360"
    if "color_cold_hue config < 360" "color_hot_hue config < 360" "0 \<le> sum"
  proof -
    from that(1,2) have "\<bar>sint (hue_delta config)\<bar> \<le> 180"
      by (rule abs_hue_delta)
    with truncate_product_abs [OF u, of "hue_delta config"] have "\<bar>t\<bar> \<le> 180"
      unfolding t_def by simp
    moreover have "uint (color_cold_hue config) < 360"
      using that(1) by (simp add: word_less_def)
    ultimately have "sum < 65536"
      unfolding sum_def by simp
    with that(3) have "sum mod 65536 = sum" by simp
    with val show ?thesis by simp
  qed
  show ?thesis
    unfolding Let_def u_def [symmetric] t_def [symmetric] sum_def [symmetric]
    using u less val nonneg by simp
qed


lemma usage_quarter: "usage 1 4 = 1 / 4"
  by code_simp

text \<open>
  C1, as the claim states it, fails: with cold hue 0, hot hue 3 and counters 1 and 4, the
  slot with counter 1 has usage 1/4 and delta 3; rounding 3/4 gives 1, but the conversion to
  \<^verbatim>\<open>int16_t\<close> discards the fraction and the hue is 0.
\<close>

theorem hue_truncates_counterexample:
  "max_count (hue_config 0 3) \<lparr>key_counts = [1, 4], is_active = True\<rparr> = 4
   \<and> usage 1 4 = 1 / 4
   \<and> sint (hue_delta (hue_config 0 3)) = 3
   \<and> uint (hue (hue_config 0 3) (usage 1 4)) = 0
   \<and> (uint (color_cold_hue (hue_config 0 3))
        + round (of_int (sint (hue_delta (hue_config 0 3))) * usage 1 4)) mod 360 = 1"
proof -
  have m: "max_count (hue_config 0 3) \<lparr>key_counts = [1, 4], is_active = True\<rparr> = 4"
    by code_simp
  have d: "sint (hue_delta (hue_config 0 3)) = 3"
    by code_simp
  have v: "uint (hue (hue_config 0 3) (usage 1 4)) = 0"
    by code_simp
  have r: "round (3 * (1 / 4 :: real)) = 1"
    by (simp add: round_def)
  show ?thesis
    using m d v r by (simp add: usage_quarter)
qed

text \<open>
  When the sum \<open>cold_hue + t\<close> is negative, the loop \<^verbatim>\<open>while (hue < 0) hue += 360\<close> never
  runs, because \<^verbatim>\<open>hue\<close> is a \<^verbatim>\<open>uint16_t\<close>: the sum has already wrapped around modulo
  65536, and the first loop reduces the wrapped value. With cold hue 10, hot hue 350 and
  usage 1 the sum is -10; the hue is 6, not 350.
\<close>

lemma hue_negative_sum_wraps:
  "sint (hue_delta (hue_config 10 350)) = - 20
   \<and> usage 1 1 = 1
   \<and> uint (color_cold_hue (hue_config 10 350))
        + f32_truncate (f32_mul (f32_of_int16 (hue_delta (hue_config 10 350))) (usage 1 1)) = - 10
   \<and> uint (hue (hue_config 10 350) (usage 1 1)) = 6
   \<and> (- 10 :: int) mod 360 = 350"
proof -
  have "sint (hue_delta (hue_config 10 350)) = - 20"
    by code_simp
  moreover have "usage 1 1 = 1"
    by code_simp
  moreover have "uint (color_cold_hue (hue_config 10 350))
        + f32_truncate (f32_mul (f32_of_int16 (hue_delta (hue_config 10 350))) (usage 1 1)) = - 10"
    by code_simp
  moreover have "uint (hue (hue_config 10 350) (usage 1 1)) = 6"
    by code_simp
  ultimately show ?thesis by simp
qed

theorem render_hue_witness:
  "device_wf (hue_config 0 120) (demo_device [0, 10] True)
   \<and> uint (hue (hue_config 0 120) (usage 10 10)) = 120
   \<and> uint (hue (hue_config 0 120) (usage 0 10)) = 0"
proof -
  have wf: "device_wf (hue_config 0 120) (demo_device [0, 10] True)"
    by (simp add: device_wf_def)
  have m: "max_count (hue_config 0 120) \<lparr>key_counts = [0, 10], is_active = True\<rparr> = 10"
    by code_simp
  have t1: "f32_truncate (f32_mul (f32_of_int16 (hue_delta (hue_config 0 120))) (usage 10 10)) = 120"
    by code_simp
  have t0: "f32_truncate (f32_mul (f32_of_int16 (hue_delta (hue_config 0 120))) (usage 0 10)) = 0"
    by code_simp
  from render_hue [OF wf, of 1] have "uint (hue (hue_config 0 120) (usage 10 10)) = 120"
    by (simp add: Let_def m t1 del: One_nat_def)
  moreover from render_hue [OF wf, of 0] have "uint (hue (hue_config 0 120) (usage 0 10)) = 0"
    by (simp add: Let_def m t0 del: One_nat_def)
  ultimately show ?thesis
    using wf by simp
qed

section \<open>Writing the frame buffer\<close>

lemma render_pixel_in_range:
  assumes "pixel_map config ! i < length px"
  shows "render_pixel H B config d m i px =
           Inr (px[pixel_map config ! i := (px ! (pixel_map config ! i))
                 \<lparr>pixel_value := B (pixel_value (px ! (pixel_map config ! i)))
                    (color_rgb H config d m i) (blending_mode config)\<rparr>])"
  using assms by (simp add: render_pixel_def Let_def)

lemma render_pixel_out_of_range:
  assumes "\<not> pixel_map config ! i < length px"
  shows "render_pixel H B config d m i px = Inl (Out_of_bounds (pixel_map config ! i))"
  using assms by (simp add: render_pixel_def Let_def)

lemma render_loop_in_range:
  assumes "\<forall>i<n. pixel_map config ! i < length pixels"
  shows "\<exists>px. fold (\<lambda>i r. case r of Inl e \<Rightarrow> Inl e
                              | Inr px \<Rightarrow> render_pixel H B config d m i px) [0..<n] (Inr pixels)
               = Inr px
            \<and> length px = length pixels
            \<and> (\<forall>q. (\<forall>i<n. pixel_map config ! i \<noteq> q) \<longrightarrow> px ! q = pixels ! q)"
  using assms
proof (induction n)
  case 0
  show ?case by simp
next
  case (Suc n)
  then obtain px where px:
    "fold (\<lambda>i r. case r of Inl e \<Rightarrow> Inl e | Inr px \<Rightarrow> render_pixel H B config d m i px)
       [0..<n] (Inr pixels) = Inr px"
    "length px = length pixels"
    "\<forall>q. (\<forall>i<n. pixel_map config ! i \<noteq> q) \<longrightarrow> px ! q = pixels ! q"
    by auto
  from Suc.prems px(2) have "pixel_map config ! n < length px" by simp
  from render_pixel_in_range [OF this, of H B d m] px show ?case
    by (auto simp add: less_Suc_eq)
qed

lemma render_loop_out_of_range:
  assumes "\<exists>i<n. \<not> pixel_map config ! i < length pixels"
  shows "\<exists>i<n. \<not> pixel_map config ! i < length pixels \<and>
           fold (\<lambda>i r. case r of Inl e \<Rightarrow> Inl e
                              | Inr px \<Rightarrow> render_pixel H B config d m i px) [0..<n] (Inr pixels)
             = Inl (Out_of_bounds (pixel_map config ! i))"
  using assms
proof (induction n)
  case 0
  then show ?case by simp
next
  case (Suc n)
  show ?case
  proof (cases "\<exists>i<n. \<not> pixel_map config ! i < length pixels")
    case True
    from Suc.IH [OF this] show ?thesis
      by (auto simp add: less_Suc_eq)
  next
    case False
    with Suc.prems have bad: "\<not> pixel_map config ! n < length pixels"
      by (auto simp add: less_Suc_eq)
    from False have "\<forall>i<n. pixel_map config ! i < length pixels" by simp
    from render_loop_in_range [OF this, of H B d m] obtain px where px:
      "fold (\<lambda>i r. case r of Inl e \<Rightarrow> Inl e | Inr px \<Rightarrow> render_pixel H B config d m i px)
         [0..<n] (Inr pixels) = Inr px"
      "length px = length pixels"
      by blast
    from bad px(2) have "\<not> pixel_map config ! n < length px" by simp
    from render_pixel_out_of_range [OF this, of H B d m] px(1) bad show ?thesis
      by (auto simp add: less_Suc_eq)
  qed
qed

text \<open>
  C9, as the claim states it, fails: \<^verbatim>\<open>fx_heatmap_render_frame\<close> never compares
  \<^verbatim>\<open>pixel_map[i]\<close> with \<^verbatim>\<open>num_pixels\<close>. With the pixel map \<open>[0, 5]\<close> and a buffer of two
  pixels, slot 1 is not skipped: the code writes at index 5, outside the buffer.
\<close>

theorem render_frame_out_of_bounds_counterexample:
  "fx_heatmap_render_frame demo_hsl_to_rgb blend_overwrite (map_config [0, 5] 2)
     (demo_device [0, 10] True) [black, black] 2 = Inl (Out_of_bounds 5)"
  by code_simp

text \<open>
  C9, amended. \<^verbatim>\<open>fx_heatmap_render_frame\<close> writes at \<^verbatim>\<open>pixel_map[i]\<close> for every slot \<open>i\<close>
  without comparing the index with the extent of the buffer. When every entry of the pixel
  map is inside the buffer, the call completes, the buffer keeps its length, and every
  position that is not in the pixel map keeps its value. When some entry is outside, that
  entry is not skipped: the call writes outside the buffer at such an entry.
\<close>

theorem render_frame_bounds:
  assumes "device_wf config dev"
  shows "((\<forall>p\<in>set (pixel_map config). p < length pixels) \<longrightarrow>
            (\<exists>px. fx_heatmap_render_frame H B config dev pixels num_pixels = Inr px \<and>
                  length px = length pixels \<and>
                  (\<forall>q. q \<notin> set (pixel_map config) \<longrightarrow> px ! q = pixels ! q)))
       \<and> (\<not> (\<forall>p\<in>set (pixel_map config). p < length pixels) \<longrightarrow>
            (\<exists>p\<in>set (pixel_map config). \<not> p < length pixels \<and>
               fx_heatmap_render_frame H B config dev pixels num_pixels = Inl (Out_of_bounds p)))"
proof (intro conjI impI)
  from assms have n: "pixel_map_size config = length (pixel_map config)"
    by (simp add: device_wf_def)
  {
    assume "\<forall>p\<in>set (pixel_map config). p < length pixels"
    then have "\<forall>i<pixel_map_size config. pixel_map config ! i < length pixels"
      by (simp add: n)
    from render_loop_in_range [OF this, of H B "data dev" "max_count config (data dev)"]
    show "\<exists>px. fx_heatmap_render_frame H B config dev pixels num_pixels = Inr px \<and>
                  length px = length pixels \<and>
                  (\<forall>q. q \<notin> set (pixel_map config) \<longrightarrow> px ! q = pixels ! q)"
      unfolding fx_heatmap_render_frame_def Let_def n
      by (metis nth_mem)
  }
  {
    assume "\<not> (\<forall>p\<in>set (pixel_map config). p < length pixels)"
    then have "\<exists>i<pixel_map_size config. \<not> pixel_map config ! i < length pixels"
      by (auto simp add: n in_set_conv_nth)
    from render_loop_out_of_range [OF this, of H B "data dev" "max_count config (data dev)"]
    show "\<exists>p\<in>set (pixel_map config). \<not> p < length pixels \<and>
               fx_heatmap_render_frame H B config dev pixels num_pixels = Inl (Out_of_bounds p)"
      unfolding fx_heatmap_render_frame_def Let_def n
      by (metis nth_mem)
  }
qed

theorem render_frame_bounds_witness:
  "device_wf (map_config [0, 1] 2) (demo_device [0, 10] True)
   \<and> (\<exists>px. fx_heatmap_render_frame demo_hsl_to_rgb blend_overwrite (map_config [0, 1] 2)
           (demo_device [0, 10] True) [black, black] 2 = Inr px \<and> length px = 2)
   \<and> device_wf (map_config [0, 5] 2) (demo_device [0, 10] True)
   \<and> fx_heatmap_render_frame demo_hsl_to_rgb blend_overwrite (map_config [0, 5] 2)
           (demo_device [0, 10] True) [black, black] 2 = Inl (Out_of_bounds 5)"
proof -
  have wf1: "device_wf (map_config [0, 1] 2) (demo_device [0, 10] True)"
    and wf2: "device_wf (map_config [0, 5] 2) (demo_device [0, 10] True)"
    by (simp_all add: device_wf_def)
  from render_frame_bounds [OF wf1, of "[black, black]" demo_hsl_to_rgb blend_overwrite 2]
  have a: "\<exists>px. fx_heatmap_render_frame demo_hsl_to_rgb blend_overwrite (map_config [0, 1] 2)
           (demo_device [0, 10] True) [black, black] 2 = Inr px \<and> length px = 2"
    by auto
  from render_frame_bounds [OF wf2, of "[black, black]" demo_hsl_to_rgb blend_overwrite 2]
  have b: "fx_heatmap_render_frame demo_hsl_to_rgb blend_overwrite (map_config [0, 5] 2)
           (demo_device [0, 10] True) [black, black] 2 = Inl (Out_of_bounds 5)"
    by simp
  from wf1 a wf2 b show ?thesis by blast
qed


section \<open>Rendering the same counters twice\<close>

lemma length_fold_update:
  "length (fold (\<lambda>i xs. xs[f i := g i (xs ! f i)]) [0..<n] xs) = length xs"
  by (induction n) simp_all

lemma nth_fold_update:
  assumes "q < length xs"
  shows "fold (\<lambda>i xs. xs[f i := g i (xs ! f i)]) [0..<n] xs ! q
       = fold (\<lambda>i v. if f i = q then g i v else v) [0..<n] (xs ! q)"
  using assms
proof (induction n)
  case 0
  show ?case by simp
next
  case (Suc n)
  then show ?case
    by (cases "f n = q") (simp_all add: length_fold_update)
qed

lemma fold_pixel_cases:
  assumes "\<forall>i<n. \<forall>j<i. f i = f j \<longrightarrow> (\<forall>x. g i (g j x) = g i x)"
  shows "(\<forall>x. fold (\<lambda>i v. if f i = q then g i v else v) [0..<n] x = x)
       \<or> (\<exists>i<n. f i = q \<and> (\<forall>x. fold (\<lambda>i v. if f i = q then g i v else v) [0..<n] x = g i x))"
  using assms
proof (induction n)
  case 0
  show ?case by simp
next
  case (Suc n)
  from Suc.prems have "\<forall>i<n. \<forall>j<i. f i = f j \<longrightarrow> (\<forall>x. g i (g j x) = g i x)"
    by simp
  from Suc.IH [OF this] consider
    (same) "\<forall>x. fold (\<lambda>i v. if f i = q then g i v else v) [0..<n] x = x"
    | (written) i where "i < n" "f i = q"
        "\<forall>x. fold (\<lambda>i v. if f i = q then g i v else v) [0..<n] x = g i x"
    by blast
  then show ?case
  proof cases
    case same
    then show ?thesis
      by (cases "f n = q") auto
  next
    case written
    show ?thesis
    proof (cases "f n = q")
      case True
      with written(1,2) Suc.prems have "\<forall>x. g n (g i x) = g n x"
        by simp
      with True written(3) have "\<forall>x. fold (\<lambda>i v. if f i = q then g i v else v) [0..<Suc n] x = g n x"
        by simp
      with True show ?thesis by blast
    next
      case False
      with written have "i < Suc n \<and> f i = q
          \<and> (\<forall>x. fold (\<lambda>i v. if f i = q then g i v else v) [0..<Suc n] x = g i x)"
        by simp
      then show ?thesis by blast
    qed
  qed
qed

lemma fold_update_twice:
  assumes absorb: "\<forall>i<n. \<forall>j<i. f i = f j \<longrightarrow> (\<forall>x. g i (g j x) = g i x)"
    and idem: "\<forall>i<n. \<forall>x. g i (g i x) = g i x"
  shows "fold (\<lambda>i xs. xs[f i := g i (xs ! f i)]) [0..<n]
           (fold (\<lambda>i xs. xs[f i := g i (xs ! f i)]) [0..<n] xs)
       = fold (\<lambda>i xs. xs[f i := g i (xs ! f i)]) [0..<n] xs"
proof (rule nth_equalityI)
  show "length (fold (\<lambda>i xs. xs[f i := g i (xs ! f i)]) [0..<n]
           (fold (\<lambda>i xs. xs[f i := g i (xs ! f i)]) [0..<n] xs))
       = length (fold (\<lambda>i xs. xs[f i := g i (xs ! f i)]) [0..<n] xs)"
    by (simp add: length_fold_update)
next
  fix q
  assume "q < length (fold (\<lambda>i xs. xs[f i := g i (xs ! f i)]) [0..<n]
           (fold (\<lambda>i xs. xs[f i := g i (xs ! f i)]) [0..<n] xs))"
  then have q: "q < length xs"
    by (simp add: length_fold_update)
  then have q': "q < length (fold (\<lambda>i xs. xs[f i := g i (xs ! f i)]) [0..<n] xs)"
    by (simp add: length_fold_update)
  define c where "c = fold (\<lambda>i v. if f i = q then g i v else v) [0..<n]"
  have "c (c x) = c x" for x
    using fold_pixel_cases [OF absorb, of q] idem unfolding c_def by auto
  then show "fold (\<lambda>i xs. xs[f i := g i (xs ! f i)]) [0..<n]
           (fold (\<lambda>i xs. xs[f i := g i (xs ! f i)]) [0..<n] xs) ! q
       = fold (\<lambda>i xs. xs[f i := g i (xs ! f i)]) [0..<n] xs ! q"
    unfolding nth_fold_update [OF q'] nth_fold_update [OF q] c_def [symmetric] .
qed


lemma render_loop_fold:
  assumes "\<forall>i<n. pixel_map config ! i < length pixels"
  shows "fold (\<lambda>i r. case r of Inl e \<Rightarrow> Inl e
                            | Inr px \<Rightarrow> render_pixel H B config d m i px) [0..<n] (Inr pixels)
       = Inr (fold (\<lambda>i xs. xs[pixel_map config ! i :=
                (\<lambda>x. x\<lparr>pixel_value := B (pixel_value x) (color_rgb H config d m i)
                         (blending_mode config)\<rparr>) (xs ! (pixel_map config ! i))])
            [0..<n] pixels)"
  using assms
proof (induction n)
  case 0
  show ?case by simp
next
  case (Suc n)
  have "length (fold (\<lambda>i xs. xs[pixel_map config ! i :=
                (\<lambda>x. x\<lparr>pixel_value := B (pixel_value x) (color_rgb H config d m i)
                         (blending_mode config)\<rparr>) (xs ! (pixel_map config ! i))])
            [0..<k] pixels) = length pixels" for k
    by (induction k) simp_all
  with Suc.prems have "pixel_map config ! n
      < length (fold (\<lambda>i xs. xs[pixel_map config ! i :=
                (\<lambda>x. x\<lparr>pixel_value := B (pixel_value x) (color_rgb H config d m i)
                         (blending_mode config)\<rparr>) (xs ! (pixel_map config ! i))])
            [0..<n] pixels)"
    by simp
  from render_pixel_in_range [OF this, of H B d m] Suc show ?case
    by simp
qed

text \<open>
  C8, as the claim states it, fails: the frame is blended into the buffer, and with an
  additive blend rule a second call adds the colours once more.
\<close>

theorem render_frame_additive_counterexample:
  "fx_heatmap_render_frame demo_hsl_to_rgb blend_additive (map_config [0, 1] 2)
     (demo_device [0, 10] True) [black, black] 2
     = Inr [\<lparr>pixel_value = (0, 100, 50)\<rparr>, \<lparr>pixel_value = (120, 100, 50)\<rparr>]
   \<and> fx_heatmap_render_frame demo_hsl_to_rgb blend_additive (map_config [0, 1] 2)
     (demo_device [0, 10] True) [\<lparr>pixel_value = (0, 100, 50)\<rparr>, \<lparr>pixel_value = (120, 100, 50)\<rparr>] 2
     = Inr [\<lparr>pixel_value = (0, 200, 100)\<rparr>, \<lparr>pixel_value = (240, 200, 100)\<rparr>]"
  by code_simp

text \<open>
  C8, amended. Let every entry of the pixel map be inside the buffer, and let the configured
  blend rule either discard what was blended before (\<open>blend (blend b c') c = blend b c\<close>, as
  overwrite does), or be idempotent in its colour (\<open>blend (blend b c) c = blend b c\<close>) while
  no entry of the pixel map occurs twice. Then for every buffer and every state of the
  counters, a second call of \<^verbatim>\<open>fx_heatmap_render_frame\<close> with the same counters leaves the
  buffer as the first call left it.
\<close>

theorem render_frame_idempotent:
  assumes "device_wf config dev"
    and "\<forall>p\<in>set (pixel_map config). p < length pixels"
    and "(\<forall>b c c'. B (B b c' (blending_mode config)) c (blending_mode config)
                  = B b c (blending_mode config))
       \<or> (distinct (pixel_map config) \<and>
          (\<forall>b c. B (B b c (blending_mode config)) c (blending_mode config)
                  = B b c (blending_mode config)))"
  shows "\<exists>px. fx_heatmap_render_frame H B config dev pixels num_pixels = Inr px
            \<and> fx_heatmap_render_frame H B config dev px num_pixels = Inr px"
proof -
  define n where "n = pixel_map_size config"
  define m where "m = max_count config (data dev)"
  define f where "f = (\<lambda>i. pixel_map config ! i)"
  define g where "g = (\<lambda>i (x :: 'a rgb_fx_pixel).
    x\<lparr>pixel_value := B (pixel_value x) (color_rgb H config (data dev) m i) (blending_mode config)\<rparr>)"
  define px where "px = fold (\<lambda>i xs. xs[f i := g i (xs ! f i)]) [0..<n] pixels"
  from assms(1) have len: "n = length (pixel_map config)"
    by (simp add: device_wf_def n_def)
  have range: "\<forall>i<n. f i < length pixels"
    using assms(2) by (simp add: len f_def)
  have idem: "\<forall>i<n. \<forall>x. g i (g i x) = g i x"
    using assms(3) by (auto simp add: g_def)
  have absorb: "\<forall>i<n. \<forall>j<i. f i = f j \<longrightarrow> (\<forall>x. g i (g j x) = g i x)"
    using assms(3)
  proof
    assume "\<forall>b c c'. B (B b c' (blending_mode config)) c (blending_mode config)
                  = B b c (blending_mode config)"
    then show ?thesis by (simp add: g_def)
  next
    assume "distinct (pixel_map config) \<and>
          (\<forall>b c. B (B b c (blending_mode config)) c (blending_mode config)
                  = B b c (blending_mode config))"
    then have "\<forall>i<n. \<forall>j<i. f i \<noteq> f j"
      by (auto simp add: len f_def nth_eq_iff_index_eq)
    then show ?thesis by simp
  qed
  have lenpx: "length px = length pixels"
    by (simp add: px_def length_fold_update)
  have first: "fx_heatmap_render_frame H B config dev pixels num_pixels = Inr px"
    using render_loop_fold [of n config pixels H B "data dev" m] range
    by (simp add: fx_heatmap_render_frame_def Let_def n_def [symmetric] m_def [symmetric]
        px_def f_def g_def)
  have "fx_heatmap_render_frame H B config dev px num_pixels
      = Inr (fold (\<lambda>i xs. xs[f i := g i (xs ! f i)]) [0..<n] px)"
    using render_loop_fold [of n config px H B "data dev" m] range lenpx
    by (simp add: fx_heatmap_render_frame_def Let_def n_def [symmetric] m_def [symmetric]
        f_def g_def)
  also have "fold (\<lambda>i xs. xs[f i := g i (xs ! f i)]) [0..<n] px = px"
    unfolding px_def using absorb idem by (rule fold_update_twice)
  finally show ?thesis
    using first by blast
qed

theorem render_frame_idempotent_witness:
  "device_wf (map_config [0, 1] 2) (demo_device [0, 10] True)
   \<and> distinct (pixel_map (map_config [0, 1] 2))
   \<and> fx_heatmap_render_frame demo_hsl_to_rgb blend_overwrite (map_config [0, 1] 2)
       (demo_device [0, 10] True) [black, black] 2
       = Inr [\<lparr>pixel_value = (0, 100, 50)\<rparr>, \<lparr>pixel_value = (120, 100, 50)\<rparr>]
   \<and> fx_heatmap_render_frame demo_hsl_to_rgb blend_overwrite (map_config [0, 1] 2)
       (demo_device [0, 10] True) [\<lparr>pixel_value = (0, 100, 50)\<rparr>, \<lparr>pixel_value = (120, 100, 50)\<rparr>] 2
       = Inr [\<lparr>pixel_value = (0, 100, 50)\<rparr>, \<lparr>pixel_value = (120, 100, 50)\<rparr>]"
proof -
  have wf: "device_wf (map_config [0, 1] 2) (demo_device [0, 10] True)"
    by (simp add: device_wf_def)
  have first: "fx_heatmap_render_frame demo_hsl_to_rgb blend_overwrite (map_config [0, 1] 2)
       (demo_device [0, 10] True) [black, black] 2
       = Inr [\<lparr>pixel_value = (0, 100, 50)\<rparr>, \<lparr>pixel_value = (120, 100, 50)\<rparr>]"
    by code_simp
  from render_frame_idempotent [OF wf, of "[black, black]" blend_overwrite demo_hsl_to_rgb 2]
  have "\<exists>px. fx_heatmap_render_frame demo_hsl_to_rgb blend_overwrite (map_config [0, 1] 2)
           (demo_device [0, 10] True) [black, black] 2 = Inr px
         \<and> fx_heatmap_render_frame demo_hsl_to_rgb blend_overwrite (map_config [0, 1] 2)
           (demo_device [0, 10] True) px 2 = Inr px"
    by (simp add: blend_overwrite_def)
  with first wf show ?thesis
    by auto
qed

end
